theory Spec2Isabelle
  imports Main "HOL-Library.Word"
begin

section \<open>Memory, as the kernel sees it\<close>

text \<open>
  The kernel \<open>subtract_nowrap_uint8\<close> of \<open>_subtract_nowrap.c\<close> receives raw byte
  pointers and walks them with per-stream steps. A pointer is modelled by its address, an
  integer (C leaves pointer arithmetic that overflows undefined, so addresses do not
  wrap); \<open>npy_uint8\<close> is an 8-bit word; \<open>npy_intp\<close>, the signed type of the element
  count, of the loop counter and of the steps, is an integer: the counter only runs from
  \<open>0\<close> up to \<open>n\<close> and so never overflows.

  The state is the byte memory together with the list of accesses that the kernel made
  through \<open>in1\<close> and \<open>in2\<close>, most recent first. A write records the byte stored.
\<close>

type_synonym addr = int
type_synonym npy_uint8 = "8 word"
type_synonym npy_intp = int

datatype access = Rd addr | Wr addr npy_uint8

record kstate =
  mem :: "addr \<Rightarrow> npy_uint8"
  trace :: "access list"

definition load :: "addr \<Rightarrow> kstate \<Rightarrow> npy_uint8 \<times> kstate" where
  "load p st = (mem st p, st\<lparr>trace := Rd p # trace st\<rparr>)"

definition store :: "addr \<Rightarrow> npy_uint8 \<Rightarrow> kstate \<Rightarrow> kstate" where
  "store p v st = st\<lparr>mem := (mem st)(p := v), trace := Wr p v # trace st\<rparr>"

section \<open>The kernel\<close>

text \<open>
  The body of the loop, between \<open>BEGIN main ufunc computation\<close> and the pointer
  increments:
  \<^verbatim>\<open>if (*in1 > *in2){ *in1 -= *in2; } else { *in1 = 0; }\<close>
  Both operands of \<open>>\<close> and of \<open>-=\<close> are promoted to \<open>int\<close>; the difference is
  computed there and converted back to \<open>npy_uint8\<close> by the assignment.
\<close>

definition loop_body :: "addr \<Rightarrow> addr \<Rightarrow> kstate \<Rightarrow> kstate" where
  "loop_body in1 in2 st =
     (let (x, st1) = load in1 st;
          (y, st2) = load in2 st1
      in if uint x > uint y then
           (let (x', st3) = load in1 st2;
                (y', st4) = load in2 st3
            in store in1 (word_of_int (uint x' - uint y')) st4)
         else store in1 0 st2)"

text \<open>
  \<^verbatim>\<open>for (i = 0; i < n; i++) { ...; in1 += in1_step; in2 += in2_step; }\<close>
\<close>

function loop :: "npy_intp \<Rightarrow> npy_intp \<Rightarrow> addr \<Rightarrow> addr \<Rightarrow> npy_intp \<Rightarrow> npy_intp \<Rightarrow> kstate \<Rightarrow> kstate" where
  "loop i n in1 in2 in1_step in2_step st =
     (if i < n
      then loop (i + 1) n (in1 + in1_step) (in2 + in2_step) in1_step in2_step
             (loop_body in1 in2 st)
      else st)"
  by pat_completeness auto
termination
  by (relation "measure (\<lambda>(i, n, _). nat (n - i))") auto

declare loop.simps [simp del]

text \<open>
  The kernel reads \<open>dimensions[0]\<close>, \<open>args[0]\<close>, \<open>args[1]\<close>, \<open>steps[0]\<close> and
  \<open>steps[1]\<close>, and nothing else of its arguments: a third pointer \<open>args[2]\<close>, a third
  step and \<open>data\<close> are never looked at. Argument arrays too short for these reads are
  outside what C defines; the model answers \<open>None\<close> there.
\<close>

fun subtract_nowrap_uint8 ::
  "addr list \<Rightarrow> npy_intp list \<Rightarrow> npy_intp list \<Rightarrow> addr option \<Rightarrow> kstate \<Rightarrow> kstate option" where
  "subtract_nowrap_uint8 (a0 # a1 # _) (n # _) (s0 # s1 # _) data st =
     Some (loop 0 n a0 a1 s0 s1 st)"
| "subtract_nowrap_uint8 _ _ _ _ _ = None"

section \<open>Streams, layouts and what a trace touches\<close>

text \<open>
  A stream is a start address, a step and a length. \<open>positions p s n\<close> is the set of
  the addresses of its elements \<open>0, \<dots>, n - 1\<close>, and \<open>stream m p s n\<close> lists the
  bytes that memory \<open>m\<close> holds there, in index order.
\<close>

definition positions :: "addr \<Rightarrow> npy_intp \<Rightarrow> npy_intp \<Rightarrow> addr set" where
  "positions p s n = (\<lambda>i. p + i * s) ` {0..<n}"

definition stream :: "(addr \<Rightarrow> npy_uint8) \<Rightarrow> addr \<Rightarrow> npy_intp \<Rightarrow> npy_intp \<Rightarrow> npy_uint8 list" where
  "stream m p s n = map (\<lambda>i. m (p + i * s)) [0..n - 1]"

fun addr_of :: "access \<Rightarrow> addr" where
  "addr_of (Rd p) = p"
| "addr_of (Wr p v) = p"

fun is_write :: "access \<Rightarrow> bool" where
  "is_write (Rd p) = False"
| "is_write (Wr p v) = True"

definition written :: "access list \<Rightarrow> addr set" where
  "written tr = addr_of ` set (filter is_write tr)"

definition touched :: "access list \<Rightarrow> addr set" where
  "touched tr = addr_of ` set tr"

text \<open>
  The kernel stores every result through \<open>in1\<close>, over the first operand. What it reads
  at index \<open>i\<close> is the original input only if no earlier iteration has stored there:
  \<open>in_place_layout\<close> says that neither stream has, at any index \<open>i\<close>, an element at
  an address that the first stream has at an index below \<open>i\<close>. Two streams that do not
  overlap and a first stream with pairwise distinct elements are laid out so; so are two
  equal streams of non-zero step, and any two streams of length 1.
\<close>

definition in_place_layout :: "addr \<Rightarrow> npy_intp \<Rightarrow> addr \<Rightarrow> npy_intp \<Rightarrow> npy_intp \<Rightarrow> bool" where
  "in_place_layout p1 s1 p2 s2 n \<longleftrightarrow>
     (\<forall>i\<in>{0..<n}. p1 + i * s1 \<notin> positions p1 s1 i \<and> p2 + i * s2 \<notin> positions p1 s1 i)"

text \<open>
  In a call with two inputs and one output the ufunc convention passes the output operand
  as \<open>args[2]\<close> with \<open>steps[2]\<close>; \<open>out_stream\<close> reads that operand from a state.
\<close>

fun out_stream :: "addr list \<Rightarrow> npy_intp list \<Rightarrow> npy_intp list \<Rightarrow> kstate \<Rightarrow> npy_uint8 list" where
  "out_stream (a0 # a1 # a2 # _) (n # _) (s0 # s1 # s2 # _) st = stream (mem st) a2 s2 n"
| "out_stream _ _ _ st = []"

section \<open>Registration\<close>

text \<open>
  The module initialisers hand the kernel to \<open>PyUFunc_FromFuncAndData\<close> and store the
  ufunc in the module dictionary under \<open>subtract_nowrap\<close>. The arrays \<open>funcs\<close>,
  \<open>types\<close> and \<open>data\<close> are those of the source file. NumPy's constructor is not part
  of the repository: it is taken here as the function that records its arguments
  \<open>(func, data, types, ntypes, nin, nout, identity, name, doc, unused)\<close> in that order,
  and of NumPy's type numbers only a few are listed.
\<close>

datatype NPY_TYPES = NPY_BOOL | NPY_INT8 | NPY_UINT8 | NPY_INT16 | NPY_UINT16

datatype ufunc_identity = PyUFunc_Zero | PyUFunc_One | PyUFunc_None

type_synonym PyUFuncGenericFunction =
  "addr list \<Rightarrow> npy_intp list \<Rightarrow> npy_intp list \<Rightarrow> addr option \<Rightarrow> kstate \<Rightarrow> kstate option"

record ufunc =
  uf_functions :: "PyUFuncGenericFunction list"
  uf_data :: "addr option list"
  uf_types :: "NPY_TYPES list"
  uf_ntypes :: int
  uf_nin :: int
  uf_nout :: int
  uf_identity :: ufunc_identity
  uf_name :: string
  uf_doc :: string

definition PyUFunc_FromFuncAndData ::
  "PyUFuncGenericFunction list \<Rightarrow> addr option list \<Rightarrow> NPY_TYPES list \<Rightarrow> int \<Rightarrow> int \<Rightarrow> int \<Rightarrow>
   ufunc_identity \<Rightarrow> string \<Rightarrow> string \<Rightarrow> int \<Rightarrow> ufunc" where
  "PyUFunc_FromFuncAndData func dat typs ntypes nin nout identity name doc unused =
     \<lparr>uf_functions = func, uf_data = dat, uf_types = typs, uf_ntypes = ntypes,
      uf_nin = nin, uf_nout = nout, uf_identity = identity, uf_name = name, uf_doc = doc\<rparr>"

definition funcs :: "PyUFuncGenericFunction list" where
  "funcs = [subtract_nowrap_uint8]"

definition types :: "NPY_TYPES list" where
  "types = [NPY_UINT8, NPY_UINT8]"

definition data :: "addr option list" where
  "data = [None]"

record py_module =
  m_name :: string
  m_dict :: "string \<rightharpoonup> ufunc"

text \<open>The initialiser compiled for Python 3 and later (\<open>PY_VERSION_HEX >= 0x03000000\<close>).\<close>

definition PyInit__npufunc :: py_module where
  "PyInit__npufunc =
     \<lparr>m_name = ''_npufunc'',
      m_dict = [''subtract_nowrap'' \<mapsto>
        PyUFunc_FromFuncAndData funcs data types 1 2 0 PyUFunc_None
          ''subtract_nowrap'' ''subtract_nowrap_docstring'' 0]\<rparr>"

text \<open>The initialiser compiled for Python 2.\<close>

definition init_npufunc :: py_module where
  "init_npufunc =
     \<lparr>m_name = ''npufunc'',
      m_dict = [''subtract_nowrap'' \<mapsto>
        PyUFunc_FromFuncAndData funcs data types 1 2 1 PyUFunc_None
          ''subtract_nowrap'' ''subtract_nowrap_docstring'' 0]\<rparr>"

text \<open>
  NumPy reads \<open>types\<close> as \<open>ntypes\<close> rows of \<open>nin + nout\<close> type numbers, the inputs
  of a row first: the table fits a registration when it has exactly that many entries.
\<close>

definition types_table_fits :: "ufunc \<Rightarrow> bool" where
  "types_table_fits u \<longleftrightarrow> int (length (uf_types u)) = uf_ntypes u * (uf_nin u + uf_nout u)"

definition input_types :: "ufunc \<Rightarrow> NPY_TYPES list" where
  "input_types u = take (nat (uf_nin u)) (uf_types u)"

definition output_types :: "ufunc \<Rightarrow> NPY_TYPES list" where
  "output_types u = take (nat (uf_nout u)) (drop (nat (uf_nin u)) (uf_types u))"

text \<open>The ufunc that a module offers under the name \<open>subtract_nowrap\<close>.\<close>

definition registered :: "py_module \<Rightarrow> ufunc option" where
  "registered m = m_dict m ''subtract_nowrap''"

section \<open>Concrete memories\<close>

text \<open>
  A memory with \<open>a = [5]\<close> at address 0, \<open>b = [3]\<close> at address 1 and a third buffer
  holding 9 at address 2; and one with \<open>a = [5, 2, 10, 0]\<close> at addresses 0 to 3 and
  \<open>b = [3, 7, 10, 1]\<close> at addresses 8 to 11.
\<close>

definition mem_5_3_9 :: "addr \<Rightarrow> npy_uint8" where
  "mem_5_3_9 = (\<lambda>_. 0)(0 := 5, 1 := 3, 2 := 9)"

definition st_5_3_9 :: kstate where
  "st_5_3_9 = \<lparr>mem = mem_5_3_9, trace = []\<rparr>"

definition mem_scenario :: "addr \<Rightarrow> npy_uint8" where
  "mem_scenario = (\<lambda>_. 0)(0 := 5, 1 := 2, 2 := 10, 3 := 0, 8 := 3, 9 := 7, 10 := 10, 11 := 1)"

definition st_scenario :: kstate where
  "st_scenario = \<lparr>mem = mem_scenario, trace = []\<rparr>"

text \<open>
  Every other element of the two buffers above, \<open>[5, 10]\<close> and \<open>[3, 10]\<close>, copied
  tightly packed to addresses 0, 1 and 4, 5 of another memory.
\<close>

definition mem_packed :: "addr \<Rightarrow> npy_uint8" where
  "mem_packed = (\<lambda>_. 0)(0 := 5, 1 := 10, 4 := 3, 5 := 10)"

definition st_packed :: kstate where
  "st_packed = \<lparr>mem = mem_packed, trace = []\<rparr>"

text \<open>The memory of the scenario with the first byte of \<open>b\<close>, at address 8, set to 4.\<close>

definition st_scenario_b4 :: kstate where
  "st_scenario_b4 = \<lparr>mem = mem_scenario(8 := 4), trace = []\<rparr>"

text \<open>
  One buffer \<open>buf\<close> at addresses 0 to 5 with \<open>buf[0] = 1\<close>, \<open>buf[2] = 5\<close> and
  \<open>buf[4] = 9\<close>, so that the views \<open>buf[2::2] = [5, 9]\<close> and \<open>buf[0::2] = [1, 5]\<close>
  (two elements each) share the byte at address 2; and tightly packed copies of the two
  views, \<open>[5, 9]\<close> at addresses 0, 1 and \<open>[1, 5]\<close> at addresses 4, 5 of another
  memory.
\<close>

definition st_shared_buf :: kstate where
  "st_shared_buf = \<lparr>mem = (\<lambda>_. 0)(0 := 1, 2 := 5, 4 := 9), trace = []\<rparr>"

definition st_shared_packed :: kstate where
  "st_shared_packed = \<lparr>mem = (\<lambda>_. 0)(0 := 5, 1 := 9, 4 := 1, 5 := 5), trace = []\<rparr>"

section \<open>Basic facts about the loop\<close>

lemma loop_done: "n \<le> i \<Longrightarrow> loop i n in1 in2 s1 s2 st = st"
  by (simp add: loop.simps)

lemma loop_step:
  "i < n \<Longrightarrow> loop i n in1 in2 s1 s2 st =
     loop (i + 1) n (in1 + s1) (in2 + s2) s1 s2 (loop_body in1 in2 st)"
  by (subst loop.simps) simp

section \<open>What the loop does to memory and to the trace\<close>

text \<open>
  One iteration stores at \<open>in1\<close> the difference of the two bytes if the first is the
  larger, and 0 otherwise; the promoted subtraction never leaves the range of a byte there.
\<close>

lemma loop_body_mem:
  "mem (loop_body p q st) =
     (mem st)(p := if mem st q < mem st p then mem st p - mem st q else 0)"
  by (simp add: loop_body_def load_def store_def Let_def word_less_def)

lemma loop_body_trace:
  "trace (loop_body p q st) =
     (if mem st q < mem st p
      then [Wr p (mem st p - mem st q), Rd q, Rd p, Rd q, Rd p]
      else [Wr p 0, Rd q, Rd p]) @ trace st"
  by (simp add: loop_body_def load_def store_def Let_def word_less_def)

lemma loop_body_mem_le: "mem (loop_body p q st) x \<le> mem st x"
  by (simp add: loop_body_mem word_sub_le)

lemma loop_mem_le: "mem (loop i n p q s1 s2 st) x \<le> mem st x"
proof (induction i n p q s1 s2 st rule: loop.induct)
  case (1 i n p q s1 s2 st)
  show ?case
  proof (cases "i < n")
    case True
    have "mem (loop (i + 1) n (p + s1) (q + s2) s1 s2 (loop_body p q st)) x
            \<le> mem (loop_body p q st) x"
      using "1" True by simp
    also have "\<dots> \<le> mem st x" by (rule loop_body_mem_le)
    finally show ?thesis using True by (simp add: loop_step)
  next
    case False
    then show ?thesis by (simp add: loop_done)
  qed
qed

lemma loop_frame:
  "(\<forall>k. 0 \<le> k \<and> k < n - i \<longrightarrow> x \<noteq> p + k * s1) \<Longrightarrow>
     mem (loop i n p q s1 s2 st) x = mem st x"
proof (induction i n p q s1 s2 st rule: loop.induct)
  case (1 i n p q s1 s2 st)
  show ?case
  proof (cases "i < n")
    case True
    have away: "\<forall>k. 0 \<le> k \<and> k < n - (i + 1) \<longrightarrow> x \<noteq> p + s1 + k * s1"
    proof (intro allI impI)
      fix k assume k: "0 \<le> k \<and> k < n - (i + 1)"
      have "x \<noteq> p + (k + 1) * s1" using "1.prems" k by simp
      then show "x \<noteq> p + s1 + k * s1" by (simp add: algebra_simps)
    qed
    have here: "x \<noteq> p" using "1.prems" [rule_format, of 0] True by simp
    have "mem (loop (i + 1) n (p + s1) (q + s2) s1 s2 (loop_body p q st)) x
            = mem (loop_body p q st) x"
      using "1.IH" [OF True away] .
    also have "\<dots> = mem st x" using here by (simp add: loop_body_mem)
    finally show ?thesis using True by (simp add: loop_step)
  next
    case False
    then show ?thesis by (simp add: loop_done)
  qed
qed


lemma loop_result:
  assumes "\<forall>a b. 0 \<le> b \<and> b < a \<and> a < n - i \<longrightarrow>
             p + a * s1 \<noteq> p + b * s1 \<and> q + a * s2 \<noteq> p + b * s1"
    and "0 \<le> k" and "k < n - i"
  shows "mem (loop i n p q s1 s2 st) (p + k * s1) =
           (if mem st (q + k * s2) < mem st (p + k * s1)
            then mem st (p + k * s1) - mem st (q + k * s2) else 0)"
  using assms
proof (induction i n p q s1 s2 st arbitrary: k rule: loop.induct)
  case (1 i n p q s1 s2 st)
  from "1.prems" have run: "i < n" by simp
  let ?st = "loop_body p q st"
  have sep: "\<And>a b. 0 \<le> b \<Longrightarrow> b < a \<Longrightarrow> a < n - i \<Longrightarrow>
               p + a * s1 \<noteq> p + b * s1 \<and> q + a * s2 \<noteq> p + b * s1"
    using "1.prems"(1) by blast
  have shifted: "\<forall>a b. 0 \<le> b \<and> b < a \<and> a < n - (i + 1) \<longrightarrow>
       p + s1 + a * s1 \<noteq> p + s1 + b * s1 \<and> q + s2 + a * s2 \<noteq> p + s1 + b * s1"
  proof (intro allI impI)
    fix a b assume ab: "0 \<le> b \<and> b < a \<and> a < n - (i + 1)"
    then have "p + (a + 1) * s1 \<noteq> p + (b + 1) * s1 \<and> q + (a + 1) * s2 \<noteq> p + (b + 1) * s1"
      by (intro sep) simp_all
    then show "p + s1 + a * s1 \<noteq> p + s1 + b * s1 \<and> q + s2 + a * s2 \<noteq> p + s1 + b * s1"
      by (simp add: algebra_simps)
  qed
  show ?case
  proof (cases "k = 0")
    case True
    have "\<forall>j. 0 \<le> j \<and> j < n - (i + 1) \<longrightarrow> p \<noteq> p + s1 + j * s1"
    proof (intro allI impI)
      fix j assume j: "0 \<le> j \<and> j < n - (i + 1)"
      then have "p + (j + 1) * s1 \<noteq> p + 0 * s1" by (intro sep [THEN conjunct1]) simp_all
      then show "p \<noteq> p + s1 + j * s1" by (simp add: algebra_simps)
    qed
    then have "mem (loop (i + 1) n (p + s1) (q + s2) s1 s2 ?st) p = mem ?st p"
      by (rule loop_frame)
    then show ?thesis using True run by (simp add: loop_step loop_body_mem)
  next
    case False
    with "1.prems" have k: "0 \<le> k - 1" "k - 1 < n - (i + 1)" "0 < k" by simp_all
    have "p + k * s1 \<noteq> p + 0 * s1" "q + k * s2 \<noteq> p + 0 * s1"
      using sep [of 0 k] k "1.prems" by simp_all
    then have same: "mem ?st (p + k * s1) = mem st (p + k * s1)"
        "mem ?st (q + k * s2) = mem st (q + k * s2)"
      by (simp_all add: loop_body_mem)
    have pk: "p + s1 + (k - 1) * s1 = p + k * s1" and qk: "q + s2 + (k - 1) * s2 = q + k * s2"
      by (simp_all add: algebra_simps)
    have "mem (loop (i + 1) n (p + s1) (q + s2) s1 s2 ?st) (p + s1 + (k - 1) * s1) =
           (if mem ?st (q + s2 + (k - 1) * s2) < mem ?st (p + s1 + (k - 1) * s1)
            then mem ?st (p + s1 + (k - 1) * s1) - mem ?st (q + s2 + (k - 1) * s2) else 0)"
      using "1.IH" [OF run shifted k(1) k(2)] .
    then show ?thesis using run by (simp add: loop_step pk qk same)
  qed
qed

lemma loop_trace_grows: "set (trace st) \<subseteq> set (trace (loop i n p q s1 s2 st))"
proof (induction i n p q s1 s2 st rule: loop.induct)
  case (1 i n p q s1 s2 st)
  show ?case
  proof (cases "i < n")
    case True
    have "set (trace st) \<subseteq> set (trace (loop_body p q st))"
      by (auto simp: loop_body_trace)
    also have "\<dots> \<subseteq> set (trace (loop (i + 1) n (p + s1) (q + s2) s1 s2 (loop_body p q st)))"
      using "1" True by simp
    finally show ?thesis using True by (simp add: loop_step)
  next
    case False
    then show ?thesis by (simp add: loop_done)
  qed
qed

lemma loop_body_writes: "\<exists>v. Wr p v \<in> set (trace (loop_body p q st))"
  by (auto simp: loop_body_trace)

lemma loop_writes_each:
  "0 \<le> k \<Longrightarrow> k < n - i \<Longrightarrow> \<exists>v. Wr (p + k * s1) v \<in> set (trace (loop i n p q s1 s2 st))"
proof (induction i n p q s1 s2 st arbitrary: k rule: loop.induct)
  case (1 i n p q s1 s2 st)
  from "1.prems" have run: "i < n" by simp
  let ?st = "loop_body p q st"
  show ?case
  proof (cases "k = 0")
    case True
    obtain v where "Wr p v \<in> set (trace ?st)" using loop_body_writes by blast
    then have "Wr p v \<in> set (trace (loop (i + 1) n (p + s1) (q + s2) s1 s2 ?st))"
      using loop_trace_grows by blast
    then show ?thesis using True run by (auto simp: loop_step)
  next
    case False
    with "1.prems" have k: "0 \<le> k - 1" "k - 1 < n - (i + 1)" by simp_all
    have pk: "p + s1 + (k - 1) * s1 = p + k * s1" by (simp add: algebra_simps)
    show ?thesis using "1.IH" [OF run k] run by (simp add: loop_step pk)
  qed
qed

lemma loop_trace_only:
  "e \<in> set (trace (loop i n p q s1 s2 st)) \<Longrightarrow>
     e \<in> set (trace st) \<or>
     (\<exists>k. 0 \<le> k \<and> k < n - i \<and>
        (e = Rd (p + k * s1) \<or> e = Rd (q + k * s2) \<or> (\<exists>v. e = Wr (p + k * s1) v)))"
proof (induction i n p q s1 s2 st rule: loop.induct)
  case (1 i n p q s1 s2 st)
  let ?st = "loop_body p q st"
  show ?case
  proof (cases "i < n")
    case True
    from "1.prems" True have "e \<in> set (trace (loop (i + 1) n (p + s1) (q + s2) s1 s2 ?st))"
      by (simp add: loop_step)
    from "1.IH" [OF True this] consider
        (body) "e \<in> set (trace ?st)"
      | (rest) k where "0 \<le> k" "k < n - (i + 1)"
          "e = Rd (p + s1 + k * s1) \<or> e = Rd (q + s2 + k * s2) \<or> (\<exists>v. e = Wr (p + s1 + k * s1) v)"
      by blast
    then show ?thesis
    proof cases
      case body
      then have "e \<in> set (trace st) \<or> e = Rd p \<or> e = Rd q \<or> (\<exists>v. e = Wr p v)"
        by (auto simp: loop_body_trace split: if_splits)
      then have "e \<in> set (trace st) \<or>
          (e = Rd (p + 0 * s1) \<or> e = Rd (q + 0 * s2) \<or> (\<exists>v. e = Wr (p + 0 * s1) v))"
        by simp
      moreover have "(0::int) \<le> 0 \<and> 0 < n - i" using True by simp
      ultimately show ?thesis by blast
    next
      case rest
      have pk: "p + s1 + k * s1 = p + (k + 1) * s1" and qk: "q + s2 + k * s2 = q + (k + 1) * s2"
        by (simp_all add: algebra_simps)
      have "0 \<le> k + 1 \<and> k + 1 < n - i" using rest by simp
      moreover have "e = Rd (p + (k + 1) * s1) \<or> e = Rd (q + (k + 1) * s2) \<or>
          (\<exists>v. e = Wr (p + (k + 1) * s1) v)"
        using rest(3) by (simp add: pk qk)
      ultimately show ?thesis by blast
    qed
  next
    case False
    with "1.prems" show ?thesis by (simp add: loop_done)
  qed
qed

lemma loop_written_values:
  "Wr x v \<in> set (trace (loop i n p q s1 s2 st)) \<Longrightarrow>
     Wr x v \<in> set (trace st) \<or> v \<le> mem st x"
proof (induction i n p q s1 s2 st rule: loop.induct)
  case (1 i n p q s1 s2 st)
  let ?st = "loop_body p q st"
  show ?case
  proof (cases "i < n")
    case True
    from "1.prems" True have "Wr x v \<in> set (trace (loop (i + 1) n (p + s1) (q + s2) s1 s2 ?st))"
      by (simp add: loop_step)
    from "1.IH" [OF True this] have "Wr x v \<in> set (trace ?st) \<or> v \<le> mem ?st x" .
    then show ?thesis
    proof
      assume "Wr x v \<in> set (trace ?st)"
      then show ?thesis
        by (auto simp: loop_body_trace word_sub_le split: if_splits)
    next
      assume "v \<le> mem ?st x"
      also have "mem ?st x \<le> mem st x" by (rule loop_body_mem_le)
      finally show ?thesis by simp
    qed
  next
    case False
    with "1.prems" show ?thesis by (simp add: loop_done)
  qed
qed

section \<open>A whole call, from index 0\<close>

lemma positions_iff: "x \<in> positions p s n \<longleftrightarrow> (\<exists>k. 0 \<le> k \<and> k < n \<and> x = p + k * s)"
  by (auto simp: positions_def)

lemma in_place_layoutD:
  assumes "in_place_layout p s1 q s2 n" and "0 \<le> b" and "b < a" and "a < n"
  shows "p + a * s1 \<noteq> p + b * s1 \<and> q + a * s2 \<noteq> p + b * s1"
proof -
  have a: "a \<in> {0..<n}" using assms by simp
  have "p + b * s1 \<in> positions p s1 a" using assms by (auto simp: positions_iff)
  moreover have "p + a * s1 \<notin> positions p s1 a \<and> q + a * s2 \<notin> positions p s1 a"
    using assms(1) a unfolding in_place_layout_def by blast
  ultimately show ?thesis by metis
qed

lemma kernel_result:
  assumes "in_place_layout p s1 q s2 n" and "0 \<le> k" and "k < n"
  shows "mem (loop 0 n p q s1 s2 st) (p + k * s1) =
           (if mem st (q + k * s2) < mem st (p + k * s1)
            then mem st (p + k * s1) - mem st (q + k * s2) else 0)"
proof (rule loop_result)
  show "\<forall>a b. 0 \<le> b \<and> b < a \<and> a < n - 0 \<longrightarrow>
          p + a * s1 \<noteq> p + b * s1 \<and> q + a * s2 \<noteq> p + b * s1"
  proof (intro allI impI)
    fix a b assume "0 \<le> b \<and> b < a \<and> a < n - 0"
    then have "0 \<le> b" "b < a" "a < n" by simp_all
    then show "p + a * s1 \<noteq> p + b * s1 \<and> q + a * s2 \<noteq> p + b * s1"
      by (rule in_place_layoutD [OF assms(1)])
  qed
qed (use assms in simp_all)

lemma kernel_frame:
  "x \<notin> positions p s1 n \<Longrightarrow> mem (loop 0 n p q s1 s2 st) x = mem st x"
  by (rule loop_frame) (auto simp: positions_iff)

lemma written_iff: "x \<in> written tr \<longleftrightarrow> (\<exists>v. Wr x v \<in> set tr)"
proof
  assume "x \<in> written tr"
  then obtain e where e: "e \<in> set tr" "is_write e" "addr_of e = x"
    by (auto simp: written_def)
  show "\<exists>v. Wr x v \<in> set tr"
  proof (cases e)
    case (Rd p)
    with e(2) show ?thesis by simp
  next
    case (Wr p v)
    with e(1,3) have "Wr x v \<in> set tr" by simp
    then show ?thesis ..
  qed
next
  assume "\<exists>v. Wr x v \<in> set tr"
  then obtain v where "Wr x v \<in> set tr" ..
  then have "Wr x v \<in> set (filter is_write tr)" by simp
  then have "addr_of (Wr x v) \<in> written tr" unfolding written_def by (rule imageI)
  then show "x \<in> written tr" by simp
qed

lemma kernel_written:
  "written (trace (loop 0 n p q s1 s2 st)) = written (trace st) \<union> positions p s1 n"
proof (intro set_eqI iffI)
  fix x assume "x \<in> written (trace (loop 0 n p q s1 s2 st))"
  then obtain v where "Wr x v \<in> set (trace (loop 0 n p q s1 s2 st))"
    by (auto simp: written_iff)
  from loop_trace_only [OF this]
  show "x \<in> written (trace st) \<union> positions p s1 n"
    by (auto simp: written_iff positions_iff)
next
  fix x assume "x \<in> written (trace st) \<union> positions p s1 n"
  then show "x \<in> written (trace (loop 0 n p q s1 s2 st))"
  proof
    assume "x \<in> written (trace st)"
    then show ?thesis using loop_trace_grows [of st 0 n p q s1 s2]
      by (auto simp: written_iff)
  next
    assume "x \<in> positions p s1 n"
    then obtain k where "0 \<le> k" "k < n - 0" "x = p + k * s1"
      by (auto simp: positions_iff)
    then show ?thesis using loop_writes_each [of k n 0 p s1 q s2 st]
      by (auto simp: written_iff)
  qed
qed

lemma kernel_touched:
  "touched (trace (loop 0 n p q s1 s2 st))
     \<subseteq> touched (trace st) \<union> positions p s1 n \<union> positions q s2 n"
proof
  fix x assume "x \<in> touched (trace (loop 0 n p q s1 s2 st))"
  then obtain e where e: "e \<in> set (trace (loop 0 n p q s1 s2 st))" "x = addr_of e"
    by (auto simp: touched_def)
  from loop_trace_only [OF e(1)]
  show "x \<in> touched (trace st) \<union> positions p s1 n \<union> positions q s2 n"
    unfolding e(2) by (auto simp: touched_def positions_iff)
qed

lemma stream_eq_iff:
  "stream m p s n = stream m' p' s' n \<longleftrightarrow> (\<forall>i. 0 \<le> i \<and> i < n \<longrightarrow> m (p + i * s) = m' (p' + i * s'))"
  by (auto simp: stream_def)

lemma loop_self:
  "q = p \<Longrightarrow> s2 = s1 \<Longrightarrow> 0 \<le> k \<Longrightarrow> k < n - i \<Longrightarrow>
     mem (loop i n p q s1 s2 st) (p + k * s1) = 0"
proof (induction i n p q s1 s2 st arbitrary: k rule: loop.induct)
  case (1 i n p q s1 s2 st)
  from "1.prems" have run: "i < n" and same: "q = p" "s2 = s1" by simp_all
  let ?st = "loop_body p q st"
  show ?case
  proof (cases "k = 0")
    case True
    have "mem (loop (i + 1) n (p + s1) (q + s2) s1 s2 ?st) p \<le> mem ?st p"
      by (rule loop_mem_le)
    also have "mem ?st p = 0" using same by (simp add: loop_body_mem)
    finally show ?thesis using True run by (simp add: loop_step)
  next
    case False
    with "1.prems" have k: "0 \<le> k - 1" "k - 1 < n - (i + 1)" by simp_all
    have pk: "p + s1 + (k - 1) * s1 = p + k * s1" by (simp add: algebra_simps)
    have "q + s2 = p + s1" using same by simp
    from "1.IH" [OF run this same(2) k] run show ?thesis by (simp add: loop_step pk)
  qed
qed

text \<open>
  Two streams that do not overlap, the first with pairwise distinct elements, are laid
  out for the in-place pass; so are two equal streams of non-zero step and any two
  streams of length 1. A stream away from a set of addresses reads the same in two
  memories that agree outside that set.
\<close>

lemma positions_mono: "m \<le> n \<Longrightarrow> positions p s m \<subseteq> positions p s n"
  unfolding positions_def by (intro image_mono) simp

lemma disjoint_streams_layout:
  assumes "s0 \<noteq> 0 \<or> n \<le> 1" and "positions a0 s0 n \<inter> positions a1 s1 n = {}"
  shows "in_place_layout a0 s0 a1 s1 n"
  unfolding in_place_layout_def
proof (intro ballI conjI)
  fix i assume i: "i \<in> {0..<n}"
  show "a0 + i * s0 \<notin> positions a0 s0 i"
  proof
    assume "a0 + i * s0 \<in> positions a0 s0 i"
    then obtain k where k: "0 \<le> k" "k < i" "a0 + i * s0 = a0 + k * s0"
      by (auto simp: positions_iff)
    then have "(i - k) * s0 = 0" by (simp add: algebra_simps)
    with k have "s0 = 0" by simp
    with assms(1) have "n \<le> 1" by simp
    with i k show False by simp
  qed
  have "a1 + i * s1 \<in> positions a1 s1 n" using i by (auto simp: positions_iff)
  moreover have "positions a0 s0 i \<subseteq> positions a0 s0 n" using i by (simp add: positions_mono)
  ultimately show "a1 + i * s1 \<notin> positions a0 s0 i" using assms(2) by blast
qed

lemma equal_streams_layout:
  assumes "s \<noteq> 0"
  shows "in_place_layout a s a s n"
  unfolding in_place_layout_def
proof (intro ballI conjI)
  fix i assume "i \<in> {0..<n}"
  show "a + i * s \<notin> positions a s i"
  proof
    assume "a + i * s \<in> positions a s i"
    then obtain k where k: "0 \<le> k" "k < i" "a + i * s = a + k * s"
      by (auto simp: positions_iff)
    then have "(i - k) * s = 0" by (simp add: algebra_simps)
    with k assms show False by simp
  qed
  then show "a + i * s \<notin> positions a s i" .
qed

lemma single_element_layout: "in_place_layout a0 s0 a1 s1 1"
  by (auto simp: in_place_layout_def positions_iff)

lemma stream_unchanged:
  assumes "\<forall>x\<in>positions p s n. m x = m' x"
  shows "stream m p s n = stream m' p s n"
  unfolding stream_eq_iff
proof (intro allI impI)
  fix i assume "0 \<le> i \<and> i < n"
  then have "p + i * s \<in> positions p s n" unfolding positions_iff by blast
  with assms show "m (p + i * s) = m' (p + i * s)" by blast
qed

lemma positions_single: "positions p s 1 = {p}"
proof -
  have "{0..<1::int} = {0}" by auto
  then show ?thesis by (simp add: positions_def)
qed

section \<open>An empty pass\<close>

text \<open>
  C5. When the element count is 0 the call is a no-op: the kernel returns the state it
  was given, so no byte of memory has changed and no read or write was added to the
  trace, whatever the pointers, the steps and a possible third (output) pointer are.
\<close>

theorem zero_count_is_noop:
  "subtract_nowrap_uint8 (a0 # a1 # args) (0 # dims) (s0 # s1 # steps) d st = Some st"
  by (simp add: loop_done)

text \<open>
  C10. The loop counter is signed, so a count that is 0 or negative fails the guard
  \<open>i < n\<close> before the first iteration: the kernel returns the state it was given, with
  no read, no write and no byte changed.
\<close>

theorem nonpositive_count_is_noop:
  "n \<le> 0 \<Longrightarrow>
     subtract_nowrap_uint8 (a0 # a1 # args) (n # dims) (s0 # s1 # steps) d st = Some st"
  by (simp add: loop_done)

theorem nonpositive_count_is_noop_witness:
  "subtract_nowrap_uint8 [0, 8] [- 3] [1, 1] None st_scenario = Some st_scenario"
  using nonpositive_count_is_noop [of "- 3" 0 8 "[]" "[]" 1 1 "[]" None st_scenario]
  by simp

section \<open>The values the kernel computes\<close>

text \<open>
  The first concrete scenario of the specification, \<open>a = [5, 2, 10, 0]\<close> and
  \<open>b = [3, 7, 10, 1]\<close>, run through the model: the first operand holds
  \<open>[2, 0, 0, 0]\<close> afterwards.
\<close>

lemma scenario_run:
  "map_option (\<lambda>r. stream (mem r) 0 1 4) (subtract_nowrap_uint8 [0, 8] [4] [1, 1] None st_scenario)
     = Some [2, 0, 0, 0]"
  by (simp add: loop_step loop_done stream_def upto_rec1 loop_body_mem st_scenario_def mem_scenario_def)

text \<open>
  C1, as stated for every pair of streams, fails when an iteration reads what an earlier
  one stored. Take a first operand of step 0, the single byte 5 at address 0 taken twice
  (\<open>a = [5, 5]\<close>), against \<open>b = [3, 1]\<close> at addresses 8 and 11, with \<open>n = 2\<close>. At
  index 1 the claim gives \<open>5 - 1 = 4\<close>; the kernel brings the byte down to 2 and then
  to 1, and leaves 1.
\<close>

theorem repeated_first_byte_accumulates:
  "\<exists>r. subtract_nowrap_uint8 [0, 8] [2] [0, 3] None st_scenario = Some r \<and>
       uint (mem st_scenario (0 + 1 * 0)) = 5 \<and> uint (mem st_scenario (8 + 1 * 3)) = 1 \<and>
       uint (mem r (0 + 1 * 0)) = 1 \<and>
       uint (mem r (0 + 1 * 0)) \<noteq>
         uint (mem st_scenario (0 + 1 * 0)) - uint (mem st_scenario (8 + 1 * 3))"
  by (simp add: loop_step loop_done loop_body_mem st_scenario_def mem_scenario_def)

text \<open>
  C1, amended. For every element count \<open>n\<close>, every index \<open>i\<close> with \<open>0 \<le> i < n\<close>
  and every pair of streams laid out so that neither has, at any index, an element at an
  address that the first stream has at a lower index (\<open>in_place_layout\<close>: streams that
  do not overlap with pairwise distinct elements in the first, equal streams of non-zero
  step, streams of length 1), the call returns, and the byte it leaves at element \<open>i\<close>
  of the first operand (the stream it writes, in place) is \<open>a[i] - b[i]\<close> as a
  difference of integers when \<open>a[i] > b[i]\<close>, and 0 otherwise, where \<open>a[i]\<close> and
  \<open>b[i]\<close> are the bytes before the call: the result never wraps modulo 256.
\<close>

theorem clamped_difference_in_place:
  assumes "in_place_layout a0 s0 a1 s1 n" and "0 \<le> i" and "i < n"
  shows "\<exists>r. subtract_nowrap_uint8 (a0 # a1 # args) (n # dims) (s0 # s1 # steps) d st = Some r \<and>
           uint (mem r (a0 + i * s0)) =
             (if uint (mem st (a0 + i * s0)) > uint (mem st (a1 + i * s1))
              then uint (mem st (a0 + i * s0)) - uint (mem st (a1 + i * s1))
              else 0)"
proof -
  let ?a = "mem st (a0 + i * s0)" and ?b = "mem st (a1 + i * s1)"
  have "mem (loop 0 n a0 a1 s0 s1 st) (a0 + i * s0) = (if ?b < ?a then ?a - ?b else 0)"
    using assms by (rule kernel_result)
  moreover have "?b < ?a \<Longrightarrow> uint (?a - ?b) = uint ?a - uint ?b"
    using uint_sub_lem [of ?b ?a] by (simp add: word_less_def)
  ultimately show ?thesis by (simp add: word_less_def)
qed

theorem clamped_difference_in_place_witness:
  "in_place_layout 0 1 8 1 4 \<and>
   (\<exists>r. subtract_nowrap_uint8 [0, 8] [4] [1, 1] None st_scenario = Some r \<and>
        uint (mem r 0) = 2) \<and>
   (\<exists>r. subtract_nowrap_uint8 [0, 8] [4] [1, 1] None st_scenario = Some r \<and>
        uint (mem r 1) = 0)"
proof -
  have L: "in_place_layout 0 1 8 1 4"
    by (auto simp: in_place_layout_def positions_def)
  show ?thesis
    using L clamped_difference_in_place [OF L, of 0 "[]" "[]" "[]" None st_scenario]
      clamped_difference_in_place [OF L, of 1 "[]" "[]" "[]" None st_scenario]
    by (simp add: st_scenario_def mem_scenario_def)
qed

text \<open>
  C4. For every input pair and every index \<open>i\<close> with \<open>0 \<le> i < n\<close>, the byte left at
  element \<open>i\<close> of the first operand lies in \<open>[0, 255]\<close> and does not exceed the byte
  that was there before the call; and every byte the kernel stores during the call is at
  most the original byte at the address it is stored to. No condition on the layout of
  the two streams is needed.
\<close>

theorem result_never_exceeds_first_operand:
  assumes "0 \<le> i" and "i < n"
  shows "\<exists>r. subtract_nowrap_uint8 (a0 # a1 # args) (n # dims) (s0 # s1 # steps) d st = Some r \<and>
           0 \<le> uint (mem r (a0 + i * s0)) \<and> uint (mem r (a0 + i * s0)) \<le> 255 \<and>
           uint (mem r (a0 + i * s0)) \<le> uint (mem st (a0 + i * s0)) \<and>
           (\<forall>x v. Wr x v \<in> set (trace r) \<and> Wr x v \<notin> set (trace st) \<longrightarrow>
                    uint v \<le> uint (mem st x))"
proof -
  let ?r = "loop 0 n a0 a1 s0 s1 st"
  have "uint (mem ?r (a0 + i * s0)) < 2 ^ 8"
    using uint_lt2p [of "mem ?r (a0 + i * s0)"] by simp
  then have "uint (mem ?r (a0 + i * s0)) \<le> 255" by simp
  moreover have "uint (mem ?r (a0 + i * s0)) \<le> uint (mem st (a0 + i * s0))"
    using loop_mem_le [of 0 n a0 a1 s0 s1 st "a0 + i * s0"] by (simp add: word_le_def)
  moreover have "\<forall>x v. Wr x v \<in> set (trace ?r) \<and> Wr x v \<notin> set (trace st) \<longrightarrow>
                    uint v \<le> uint (mem st x)"
    using loop_written_values [of _ _ 0 n a0 a1 s0 s1 st] by (auto simp: word_le_def)
  ultimately show ?thesis by simp
qed

theorem result_never_exceeds_first_operand_witness:
  "\<exists>r. subtract_nowrap_uint8 [0, 8] [4] [1, 1] None st_scenario = Some r \<and>
       uint (mem r 2) \<le> 255 \<and> uint (mem r 2) \<le> 10"
  using result_never_exceeds_first_operand [of 2 4 0 8 "[]" "[]" 1 1 "[]" None st_scenario]
  by (simp add: st_scenario_def mem_scenario_def)

text \<open>
  C6. Subtracting a stream from itself (both input pointers and both steps equal) leaves 0
  at every index \<open>i\<close> with \<open>0 \<le> i < n\<close>, for every step, every count and every
  content of the stream.
\<close>

theorem self_subtraction_gives_zeros:
  assumes "0 \<le> i" and "i < n"
  shows "\<exists>r. subtract_nowrap_uint8 (a # a # args) (n # dims) (s # s # steps) d st = Some r \<and>
           mem r (a + i * s) = 0"
  using assms loop_self [of a a s s i n 0 st] by simp

theorem self_subtraction_gives_zeros_witness:
  "\<exists>r. subtract_nowrap_uint8 [0, 0] [4] [1, 1] None st_scenario = Some r \<and> mem r 2 = 0"
  using self_subtraction_gives_zeros [of 2 4 0 "[]" "[]" 1 "[]" None st_scenario]
  by simp

section \<open>Independence of the indices, and strided views\<close>

text \<open>
  C9, as stated for any non-aliased streams, fails when the first operand repeats an
  address. Take the first operand of step 0 at address 0 (byte 5) and \<open>b\<close> at addresses
  8 and 11, which the first operand does not touch, with \<open>n = 2\<close>. Two runs that agree
  at index 1 (\<open>a[1] = 5\<close>, \<open>b[1] = 1\<close>) and differ only in \<open>b[0]\<close>, 3 in one and
  4 in the other, leave 1 and 0 at index 1.
\<close>

theorem repeated_first_byte_couples_indices:
  "positions 0 0 2 \<inter> positions 8 3 2 = {} \<and>
   mem st_scenario (0 + 1 * 0) = mem st_scenario_b4 (0 + 1 * 0) \<and>
   mem st_scenario (8 + 1 * 3) = mem st_scenario_b4 (8 + 1 * 3) \<and>
   (\<exists>r r'. subtract_nowrap_uint8 [0, 8] [2] [0, 3] None st_scenario = Some r \<and>
      subtract_nowrap_uint8 [0, 8] [2] [0, 3] None st_scenario_b4 = Some r' \<and>
      mem r (0 + 1 * 0) = 1 \<and> mem r' (0 + 1 * 0) = 0 \<and>
      mem r (0 + 1 * 0) \<noteq> mem r' (0 + 1 * 0))"
proof -
  have "positions 0 0 2 \<inter> positions 8 3 2 = {}"
    by (auto simp: positions_iff)
  then show ?thesis
    by (simp add: loop_step loop_done loop_body_mem st_scenario_def st_scenario_b4_def
        mem_scenario_def)
qed

text \<open>
  C9, amended. Each output element depends only on the input pair of the same index,
  for streams laid out so that no element is read at an address that an earlier iteration
  stored to (\<open>in_place_layout\<close>; streams that do not overlap are laid out so when the
  elements of the first are pairwise distinct). Take any two runs of the kernel, each on
  its own memory, pointers, steps and count, with such layouts, and an index \<open>i\<close>
  inside both counts at which the two runs have the same \<open>a[i]\<close> and the same
  \<open>b[i]\<close>; the memories may differ everywhere else. Then both runs return, and they
  leave the same byte at index \<open>i\<close> of their first operand.
\<close>

theorem output_depends_on_same_index_pair:
  assumes "in_place_layout a0 s0 a1 s1 n" and "in_place_layout a0' s0' a1' s1' n'"
    and "0 \<le> i" and "i < n" and "i < n'"
    and "mem st (a0 + i * s0) = mem st' (a0' + i * s0')"
    and "mem st (a1 + i * s1) = mem st' (a1' + i * s1')"
  shows "\<exists>r r'. subtract_nowrap_uint8 (a0 # a1 # args) (n # dims) (s0 # s1 # steps) d st = Some r \<and>
           subtract_nowrap_uint8 (a0' # a1' # args') (n' # dims') (s0' # s1' # steps') d' st' = Some r' \<and>
           mem r (a0 + i * s0) = mem r' (a0' + i * s0')"
  using assms by (simp add: kernel_result)

theorem output_depends_on_same_index_pair_witness:
  "in_place_layout 0 1 8 1 4 \<and> in_place_layout 0 1 1 1 1 \<and>
   mem st_scenario 0 = mem st_5_3_9 0 \<and> mem st_scenario 8 = mem st_5_3_9 1 \<and>
   mem st_scenario 1 \<noteq> mem st_5_3_9 1 \<and>
   (\<exists>r r'. subtract_nowrap_uint8 [0, 8] [4] [1, 1] None st_scenario = Some r \<and>
      subtract_nowrap_uint8 [0, 1] [1] [1, 1] None st_5_3_9 = Some r' \<and>
      mem r 0 = mem r' 0)"
proof -
  have L: "in_place_layout 0 1 8 1 4" and L': "in_place_layout 0 1 1 1 1"
    by (auto simp: in_place_layout_def positions_def)
  have eq: "mem st_scenario (0 + 0 * 1) = mem st_5_3_9 (0 + 0 * 1)"
      "mem st_scenario (8 + 0 * 1) = mem st_5_3_9 (1 + 0 * 1)"
    by (simp_all add: st_scenario_def mem_scenario_def st_5_3_9_def mem_5_3_9_def)
  have "\<exists>r r'. subtract_nowrap_uint8 [0, 8] [4] [1, 1] None st_scenario = Some r \<and>
      subtract_nowrap_uint8 [0, 1] [1] [1, 1] None st_5_3_9 = Some r' \<and>
      mem r (0 + 0 * 1) = mem r' (0 + 0 * 1)"
    by (rule output_depends_on_same_index_pair [OF L L' _ _ _ eq]) simp_all
  then show ?thesis using L L'
    by (simp add: st_scenario_def mem_scenario_def st_5_3_9_def mem_5_3_9_def)
qed

text \<open>
  C7, as stated for every underlying buffer, fails when the two views share bytes of one
  buffer. With \<open>buf[0] = 1\<close>, \<open>buf[2] = 5\<close>, \<open>buf[4] = 9\<close>, the views
  \<open>a = buf[2::2] = [5, 9]\<close> and \<open>b = buf[0::2] = [1, 5]\<close> and \<open>n = 2\<close>, the run
  over the views stores 4 at \<open>buf[2]\<close> and then reads it as \<open>b[1]\<close>: it leaves
  \<open>[4, 5]\<close> at the selected positions of \<open>a\<close>, where the run over tightly packed
  copies of the two views leaves \<open>[4, 4]\<close>.
\<close>

theorem overlapping_views_differ_from_packed:
  "stream (mem st_shared_packed) 0 1 2 = stream (mem st_shared_buf) 2 2 2 \<and>
   stream (mem st_shared_packed) 4 1 2 = stream (mem st_shared_buf) 0 2 2 \<and>
   (\<exists>r r'. subtract_nowrap_uint8 [2, 0] [2] [2, 2] None st_shared_buf = Some r \<and>
      subtract_nowrap_uint8 [0, 4] [2] [1, 1] None st_shared_packed = Some r' \<and>
      stream (mem r) 2 2 2 = [4, 5] \<and> stream (mem r') 0 1 2 = [4, 4] \<and>
      stream (mem r) 2 2 2 \<noteq> stream (mem r') 0 1 2)"
  by (simp add: loop_step loop_done loop_body_mem stream_def upto_rec1
      st_shared_buf_def st_shared_packed_def)

text \<open>
  C7, amended. Let a strided view select every other byte (step 2) of two buffers, \<open>n\<close>
  elements each, and let a second memory hold tightly packed copies (step 1) of just the
  selected elements. Both runs return. If the views, and the packed copies, are laid out
  so that no element is read at an address that an earlier iteration stored to
  (\<open>in_place_layout\<close>, as when the two views do not overlap), running the kernel over
  the view writes to the selected positions of the first buffer exactly the values that
  running it over the packed copies gives. For every layout, every address that is not a
  selected position of the first buffer keeps its byte, the writes of the run are exactly
  to the selected positions of the first buffer, and every access of the run is to a
  selected position of one of the two buffers.
\<close>

theorem strided_view_matches_packed_copy:
  assumes "stream (mem st') a' 1 n = stream (mem st) a 2 n"
    and "stream (mem st') b' 1 n = stream (mem st) b 2 n"
  shows "\<exists>r r'. subtract_nowrap_uint8 (a # b # args) (n # dims) (2 # 2 # steps) d st = Some r \<and>
           subtract_nowrap_uint8 (a' # b' # args') (n # dims') (1 # 1 # steps') d' st' = Some r' \<and>
           (in_place_layout a 2 b 2 n \<and> in_place_layout a' 1 b' 1 n \<longrightarrow>
              stream (mem r) a 2 n = stream (mem r') a' 1 n) \<and>
           (\<forall>x. x \<notin> positions a 2 n \<longrightarrow> mem r x = mem st x) \<and>
           written (trace r) = written (trace st) \<union> positions a 2 n \<and>
           touched (trace r) \<subseteq> touched (trace st) \<union> positions a 2 n \<union> positions b 2 n"
proof -
  let ?r = "loop 0 n a b 2 2 st" and ?r' = "loop 0 n a' b' 1 1 st'"
  have packed: "stream (mem ?r) a 2 n = stream (mem ?r') a' 1 n"
    if L: "in_place_layout a 2 b 2 n" and L': "in_place_layout a' 1 b' 1 n"
  proof -
    have "mem ?r (a + i * 2) = mem ?r' (a' + i * 1)" if i: "0 \<le> i \<and> i < n" for i
    proof -
      from assms i have same: "mem st' (a' + i * 1) = mem st (a + i * 2)"
          "mem st' (b' + i * 1) = mem st (b + i * 2)"
        unfolding stream_eq_iff by blast+
      have r: "mem ?r (a + i * 2) =
          (if mem st (b + i * 2) < mem st (a + i * 2)
           then mem st (a + i * 2) - mem st (b + i * 2) else 0)"
        using kernel_result [OF L] i by blast
      have r': "mem ?r' (a' + i * 1) =
          (if mem st' (b' + i * 1) < mem st' (a' + i * 1)
           then mem st' (a' + i * 1) - mem st' (b' + i * 1) else 0)"
        using kernel_result [OF L'] i by blast
      show ?thesis unfolding r r' same ..
    qed
    then show ?thesis unfolding stream_eq_iff by blast
  qed
  then show ?thesis
    using kernel_frame [of _ a 2 n b 2 st] kernel_written [of n a b 2 2 st]
      kernel_touched [of n a b 2 2 st]
    by simp
qed

theorem strided_view_matches_packed_copy_witness:
  "in_place_layout 0 2 8 2 2 \<and> in_place_layout 0 1 4 1 2 \<and>
   stream (mem st_packed) 0 1 2 = stream (mem st_scenario) 0 2 2 \<and>
   stream (mem st_packed) 4 1 2 = stream (mem st_scenario) 8 2 2 \<and>
   (\<exists>r r'. subtract_nowrap_uint8 [0, 8] [2] [2, 2] None st_scenario = Some r \<and>
      subtract_nowrap_uint8 [0, 4] [2] [1, 1] None st_packed = Some r' \<and>
      stream (mem r) 0 2 2 = stream (mem r') 0 1 2 \<and>
      mem r 1 = mem st_scenario 1 \<and>
      written (trace r) = positions 0 2 2 \<and>
      touched (trace r) \<subseteq> positions 0 2 2 \<union> positions 8 2 2)"
proof -
  have L: "in_place_layout 0 2 8 2 2" and L': "in_place_layout 0 1 4 1 2"
    by (auto simp: in_place_layout_def positions_def)
  have A: "stream (mem st_packed) 0 1 2 = stream (mem st_scenario) 0 2 2"
    and B: "stream (mem st_packed) 4 1 2 = stream (mem st_scenario) 8 2 2"
    by (simp_all add: stream_def upto_rec1 st_packed_def mem_packed_def
        st_scenario_def mem_scenario_def)
  have out: "1 \<notin> positions 0 2 2"
  proof
    assume "1 \<in> positions 0 2 2"
    then obtain k :: int where "1 = 0 + k * 2" unfolding positions_iff by blast
    then show False by presburger
  qed
  have T: "trace st_scenario = []" by (simp add: st_scenario_def)
  from strided_view_matches_packed_copy [OF A B, of "[]" "[]" "[]" None "[]" "[]" "[]" None]
  obtain r r' where
    "subtract_nowrap_uint8 [0, 8] [2] [2, 2] None st_scenario = Some r"
    "subtract_nowrap_uint8 [0, 4] [2] [1, 1] None st_packed = Some r'"
    "in_place_layout 0 2 8 2 2 \<and> in_place_layout 0 1 4 1 2 \<longrightarrow>
       stream (mem r) 0 2 2 = stream (mem r') 0 1 2"
    "\<forall>x. x \<notin> positions 0 2 2 \<longrightarrow> mem r x = mem st_scenario x"
    "written (trace r) = written (trace st_scenario) \<union> positions 0 2 2"
    "touched (trace r) \<subseteq> touched (trace st_scenario) \<union> positions 0 2 2 \<union> positions 8 2 2"
    by blast
  then show ?thesis using L L' A B out
    by (simp add: T written_def touched_def)
qed

section \<open>Where the results go\<close>

text \<open>
  The kernel stores through \<open>in1 = args[0]\<close> and through nothing else. A caller that
  designates a separate output operand, \<open>args[2]\<close>, finds it as it was.

  C2, as stated, fails. With \<open>a = [5]\<close> at address 0, \<open>b = [3]\<close> at address 1 and
  \<open>n = 1\<close>: when the output operand is \<open>a\<close> itself, the output stream holds
  \<open>[2]\<close> after the call; when it is the separate buffer at address 2, which held 9,
  the output stream still holds \<open>[9]\<close>. The two invocations do not yield the same
  result values in their outputs.
\<close>

theorem separate_output_differs_from_aliased:
  "map_option (out_stream [0, 1, 0] [1] [1, 1, 1])
     (subtract_nowrap_uint8 [0, 1, 0] [1] [1, 1, 1] None st_5_3_9) = Some [2] \<and>
   map_option (out_stream [0, 1, 2] [1] [1, 1, 1])
     (subtract_nowrap_uint8 [0, 1, 2] [1] [1, 1, 1] None st_5_3_9) = Some [9] \<and>
   map_option (out_stream [0, 1, 0] [1] [1, 1, 1])
     (subtract_nowrap_uint8 [0, 1, 0] [1] [1, 1, 1] None st_5_3_9) \<noteq>
   map_option (out_stream [0, 1, 2] [1] [1, 1, 1])
     (subtract_nowrap_uint8 [0, 1, 2] [1] [1, 1, 1] None st_5_3_9)"
  by (simp add: loop_step loop_done loop_body_mem stream_def upto_rec1
      st_5_3_9_def mem_5_3_9_def)

text \<open>
  C2, amended. For every pair of input streams and every count, the call with the output
  pointer aliased to \<open>a\<close> and the call with any other output pointer and step return,
  and return the same state: the kernel does not look at the output pointer. In both, the
  writes of the call are exactly to the elements of \<open>a\<close>, where the results are
  stored in place, and an output buffer that does not overlap \<open>a\<close> keeps its contents.
\<close>

theorem output_pointer_is_ignored:
  "\<exists>r. subtract_nowrap_uint8 (a0 # a1 # a0 # args) (n # dims) (s0 # s1 # s0 # steps) d st = Some r \<and>
       subtract_nowrap_uint8 (a0 # a1 # out # args') (n # dims') (s0 # s1 # os # steps') d' st = Some r \<and>
       written (trace r) = written (trace st) \<union> positions a0 s0 n \<and>
       (positions out os n \<inter> positions a0 s0 n = {} \<longrightarrow>
          stream (mem r) out os n = stream (mem st) out os n)"
proof -
  let ?r = "loop 0 n a0 a1 s0 s1 st"
  have "stream (mem ?r) out os n = stream (mem st) out os n"
    if "positions out os n \<inter> positions a0 s0 n = {}"
  proof (rule stream_unchanged, rule ballI)
    fix x assume "x \<in> positions out os n"
    with that have "x \<notin> positions a0 s0 n" by blast
    then show "mem ?r x = mem st x" by (rule kernel_frame)
  qed
  then show ?thesis by (simp add: kernel_written)
qed

theorem output_pointer_is_ignored_witness:
  "\<exists>r. subtract_nowrap_uint8 [0, 1, 0] [1] [1, 1, 1] None st_5_3_9 = Some r \<and>
       subtract_nowrap_uint8 [0, 1, 2] [1] [1, 1, 1] None st_5_3_9 = Some r \<and>
       written (trace r) = {0} \<and>
       stream (mem r) 2 1 1 = stream (mem st_5_3_9) 2 1 1"
  using output_pointer_is_ignored [of 0 1 "[]" 1 "[]" 1 1 "[]" None st_5_3_9 2 "[]" "[]" 1 "[]" None]
  by (simp add: positions_single written_def st_5_3_9_def)

text \<open>
  C3, as stated, fails when the caller designates an output stream that is not the first
  input. In the call above with the separate output at address 2, the output stream
  (the single address 2) is not written and reads the same before and after, while the
  first input at address 0, which the output does not alias, is changed from 5 to 2.
\<close>

theorem separate_output_is_not_populated:
  "\<exists>r. subtract_nowrap_uint8 [0, 1, 2] [1] [1, 1, 1] None st_5_3_9 = Some r \<and>
       positions 2 1 1 = {2} \<and> 2 \<notin> written (trace r) \<and>
       out_stream [0, 1, 2] [1] [1, 1, 1] r = out_stream [0, 1, 2] [1] [1, 1, 1] st_5_3_9 \<and>
       0 \<notin> positions 2 1 1 \<and> mem st_5_3_9 0 = 5 \<and> mem r 0 = 2"
  by (simp add: loop_step loop_done loop_body_mem loop_body_trace stream_def upto_rec1
      positions_single written_def st_5_3_9_def mem_5_3_9_def del: set_filter)

text \<open>
  C3, amended. Every call returns, and the addresses it writes are exactly the \<open>n\<close>
  element addresses of the first input stream, each of them written: the first input is
  the stream that the kernel populates, in place. Every byte outside that stream is
  unchanged, so any stream that does not overlap the first input (the second input, or a
  separate output buffer) reads the same after the call as before. The state returned,
  memory and trace, is all the kernel produces.
\<close>

theorem only_first_operand_is_written:
  "\<exists>r. subtract_nowrap_uint8 (a0 # a1 # args) (n # dims) (s0 # s1 # steps) d st = Some r \<and>
       written (trace r) = written (trace st) \<union> positions a0 s0 n \<and>
       (\<forall>x. x \<notin> positions a0 s0 n \<longrightarrow> mem r x = mem st x) \<and>
       (\<forall>p s m. positions p s m \<inter> positions a0 s0 n = {} \<longrightarrow>
          stream (mem r) p s m = stream (mem st) p s m)"
proof -
  let ?r = "loop 0 n a0 a1 s0 s1 st"
  have frame: "\<forall>x. x \<notin> positions a0 s0 n \<longrightarrow> mem ?r x = mem st x"
    by (simp add: kernel_frame)
  have "stream (mem ?r) p s m = stream (mem st) p s m"
    if "positions p s m \<inter> positions a0 s0 n = {}" for p s m
  proof (rule stream_unchanged, rule ballI)
    fix x assume "x \<in> positions p s m"
    with that have "x \<notin> positions a0 s0 n" by blast
    with frame show "mem ?r x = mem st x" by blast
  qed
  with frame show ?thesis by (simp add: kernel_written)
qed

theorem only_first_operand_is_written_witness:
  "\<exists>r. subtract_nowrap_uint8 [0, 1, 2] [1] [1, 1, 1] None st_5_3_9 = Some r \<and>
       written (trace r) = {0} \<and> mem r 1 = 3 \<and> mem r 2 = 9 \<and>
       stream (mem r) 1 1 1 = stream (mem st_5_3_9) 1 1 1"
proof -
  from only_first_operand_is_written [of 0 1 "[2]" 1 "[]" 1 1 "[1]" None st_5_3_9]
  obtain r where r: "subtract_nowrap_uint8 [0, 1, 2] [1] [1, 1, 1] None st_5_3_9 = Some r"
    "written (trace r) = written (trace st_5_3_9) \<union> positions 0 1 1"
    "\<forall>x. x \<notin> positions 0 1 1 \<longrightarrow> mem r x = mem st_5_3_9 x"
    "\<forall>p s m. positions p s m \<inter> positions 0 1 1 = {} \<longrightarrow>
          stream (mem r) p s m = stream (mem st_5_3_9) p s m"
    by blast
  have "mem r 1 = mem st_5_3_9 1" "mem r 2 = mem st_5_3_9 2"
    using r(3) by (simp_all add: positions_single)
  moreover have "stream (mem r) 1 1 1 = stream (mem st_5_3_9) 1 1 1"
    using r(4) [rule_format, of 1 1 1] by (simp add: positions_single)
  ultimately show ?thesis using r(1,2)
    by (simp add: positions_single written_def st_5_3_9_def mem_5_3_9_def)
qed

section \<open>What is registered\<close>

text \<open>
  C8, as stated, fails. The initialiser for Python 3 passes 0 as the output count, not 1,
  so the registered ufunc has no output type at all; and the \<open>types\<close> table has two
  entries in both initialisers, where two inputs and one output would need three.
\<close>

theorem python3_registers_no_output:
  "map_option uf_nout (registered PyInit__npufunc) = Some 0 \<and>
   map_option uf_nout (registered PyInit__npufunc) \<noteq> Some 1 \<and>
   map_option output_types (registered PyInit__npufunc) = Some [] \<and>
   map_option output_types (registered PyInit__npufunc) \<noteq> Some [NPY_UINT8] \<and>
   map_option (length \<circ> uf_types) (registered PyInit__npufunc) = Some 2 \<and>
   map_option (length \<circ> uf_types) (registered init_npufunc) = Some 2"
  by (simp add: registered_def PyInit__npufunc_def init_npufunc_def
      PyUFunc_FromFuncAndData_def types_def output_types_def)

text \<open>
  C8, amended. Both initialisers register the kernel \<open>subtract_nowrap_uint8\<close> under
  the name \<open>subtract_nowrap\<close> with exactly two inputs, both \<open>uint8\<close>. The
  initialiser for Python 3 registers it with no output: the output count is 0 and the
  two-entry \<open>types\<close> table is exactly one row of two input types, in keeping with a
  kernel that stores its result in place in the first input.
\<close>

theorem registration_two_inputs_in_place:
  "map_option uf_nin (registered PyInit__npufunc) = Some 2 \<and>
   map_option uf_nin (registered init_npufunc) = Some 2 \<and>
   map_option input_types (registered PyInit__npufunc) = Some [NPY_UINT8, NPY_UINT8] \<and>
   map_option input_types (registered init_npufunc) = Some [NPY_UINT8, NPY_UINT8] \<and>
   map_option uf_functions (registered PyInit__npufunc) = Some [subtract_nowrap_uint8] \<and>
   map_option uf_functions (registered init_npufunc) = Some [subtract_nowrap_uint8] \<and>
   map_option uf_nout (registered PyInit__npufunc) = Some 0 \<and>
   map_option uf_types (registered PyInit__npufunc) = Some [NPY_UINT8, NPY_UINT8] \<and>
   map_option types_table_fits (registered PyInit__npufunc) = Some True"
  by (simp add: registered_def PyInit__npufunc_def init_npufunc_def
      PyUFunc_FromFuncAndData_def types_def funcs_def input_types_def types_table_fits_def)

end
